theory Spec2Isabelle
  imports Complex_Main "HOL-Library.Char_ord" "HOL-Library.List_Lexorder" "HOL-Library.AList"
begin

section \<open>Field handling\<close>

text \<open>
  \<^verbatim>\<open>valid.py\<close> extracts sampled line data from OpenFOAM cases, loads it into per-case,
  per-time matrices and compares a baseline case with the others. Field names are
  Python strings; they are modelled as \<^typ>\<open>string\<close> and ordered as Python orders
  \<^verbatim>\<open>str\<close> values: lexicographically by character code.
\<close>

text \<open>\<^verbatim>\<open>req_fields = set(['U', 'alphat', 'nut', 'k', 'epsilon', 'G'])\<close>\<close>

definition req_fields :: "string set" where
  "req_fields = set [''U'', ''alphat'', ''nut'', ''k'', ''epsilon'', ''G'']"

text \<open>
  \<^verbatim>\<open>
  def _make_full_fields(fields, for_extract=True):
      subtract = set()
      if not for_extract:
          subtract = set(['U'])
      return sorted((req_fields | set(fields)) - subtract)
  \<close>
\<close>

definition make_full_fields :: "string list \<Rightarrow> bool \<Rightarrow> string list" where
  "make_full_fields fields for_extract =
     (let subtract = (if \<not> for_extract then set [''U''] else {})
      in sorted_list_of_set ((req_fields \<union> set fields) - subtract))"

text \<open>
  \<^verbatim>\<open>
  def _field_iter(fields, for_extract=True):
      field_list = fields[:]
      while field_list:
          fl_len = min(10, len(field_list))
          yield field_list[:fl_len]
          field_list = field_list[fl_len:]
  \<close>
  The generator is modelled by the list of the batches it yields. The flag
  \<^verbatim>\<open>for_extract\<close> is a parameter of the source function that its body never reads.
\<close>

function field_iter :: "'a list \<Rightarrow> bool \<Rightarrow> 'a list list" where
  "field_iter field_list for_extract =
     (if field_list = [] then []
      else (let fl_len = min 10 (length field_list)
            in take fl_len field_list # field_iter (drop fl_len field_list) for_extract))"
  by pat_completeness auto
termination
  by (relation "measure (\<lambda>(field_list, for_extract). length field_list)") auto

declare field_iter.simps [simp del]

text \<open>
  \<^verbatim>\<open>
  def _make_fields(fields, for_extract=True):
      f = _make_full_fields(fields, for_extract=for_extract)
      if for_extract:
          return '({})'.format(' '.join(f))
      else:
          return '_'.join(f)
  \<close>
\<close>

fun join :: "string \<Rightarrow> string list \<Rightarrow> string" where
  "join sep [] = []"
| "join sep [x] = x"
| "join sep (x # y # ys) = x @ sep @ join sep (y # ys)"

definition make_fields :: "string list \<Rightarrow> bool \<Rightarrow> string" where
  "make_fields fields for_extract =
     (let f = make_full_fields fields for_extract
      in if for_extract then ''('' @ join '' '' f @ '')'' else join ''_'' f)"

text \<open>The exceptions the modelled functions can raise.\<close>

datatype error =
  KeyError | ValueError | IndexError | TypeError | StopIteration | FileNotFoundError

definition ebind :: "error + 'a \<Rightarrow> ('a \<Rightarrow> error + 'b) \<Rightarrow> error + 'b" where
  "ebind m f = (case m of Inl e \<Rightarrow> Inl e | Inr x \<Rightarrow> f x)"

text \<open>A list comprehension whose element expression may raise: the first error wins.\<close>

fun map_err :: "('a \<Rightarrow> error + 'b) \<Rightarrow> 'a list \<Rightarrow> error + 'b list" where
  "map_err f [] = Inr []"
| "map_err f (x # xs) =
     (case f x of
        Inl e \<Rightarrow> Inl e
      | Inr y \<Rightarrow> (case map_err f xs of Inl e \<Rightarrow> Inl e | Inr ys \<Rightarrow> Inr (y # ys)))"

text \<open>\<^verbatim>\<open>list.index\<close>: the position of the first occurrence, \<^verbatim>\<open>ValueError\<close> when absent.\<close>

fun index_of :: "'a \<Rightarrow> 'a list \<Rightarrow> nat option" where
  "index_of x [] = None"
| "index_of x (y # ys) = (if x = y then Some 0 else map_option Suc (index_of x ys))"

text \<open>
  \<^verbatim>\<open>
  def _field_index(field, fields, for_extract=True):
      return _make_full_fields(fields, for_extract=for_extract).index(field)

  def _num_fields(fields, for_extract=True):
      return len(_make_full_fields(fields, for_extract=for_extract))
  \<close>
\<close>

definition field_index :: "string \<Rightarrow> string list \<Rightarrow> bool \<Rightarrow> error + nat" where
  "field_index field fields for_extract =
     (case index_of field (make_full_fields fields for_extract) of
        None \<Rightarrow> Inl ValueError
      | Some i \<Rightarrow> Inr i)"

definition num_fields :: "string list \<Rightarrow> bool \<Rightarrow> nat" where
  "num_fields fields for_extract = length (make_full_fields fields for_extract)"

section \<open>Double-precision numbers\<close>

text \<open>
  Times and sampled values are IEEE 754 binary64 numbers (Python \<^verbatim>\<open>float\<close>, NumPy
  \<^verbatim>\<open>float64\<close>). A finite double is modelled by the real number it denotes; the two
  zeros are identified (the program never divides by a zero and never prints a sign of
  zero that a claim depends on). Every arithmetic operation computes the exact result
  and rounds it to the nearest representable number, ties to even, as the hardware does.
\<close>

datatype double = Fin real | PInf | NInf | NaN

definition pow2 :: "int \<Rightarrow> real" where
  "pow2 k = (if 0 \<le> k then 2 ^ nat k else 1 / 2 ^ nat (- k))"

text \<open>Rounding a real to the nearest integer, ties to the even one.\<close>

definition rne :: "real \<Rightarrow> int" where
  "rne x = (let n = \<lfloor>x\<rfloor>
            in if x - of_int n < 1 / 2 then n
               else if 1 / 2 < x - of_int n then n + 1
               else if even n then n else n + 1)"

fun bit_length :: "nat \<Rightarrow> nat" where
  "bit_length n = (if n = 0 then 0 else Suc (bit_length (n div 2)))"

declare bit_length.simps [simp del]

text \<open>The binary exponent of a positive real: the \<open>k\<close> with \<open>2\<^sup>k \<le> x < 2\<^sup>k\<^sup>+\<^sup>1\<close>.\<close>

definition ilog2 :: "real \<Rightarrow> int" where
  "ilog2 x =
     (if 1 \<le> x then int (bit_length (nat \<lfloor>x\<rfloor>)) - 1
      else (let b = int (bit_length (nat \<lfloor>1 / x\<rfloor>))
            in if pow2 (1 - b) \<le> x then 1 - b else - b))"

text \<open>
  Rounding to binary64: 53 significant bits, exponents from \<open>-1022\<close> (below it the
  spacing of the subnormal numbers stays \<open>2\<^sup>-\<^sup>1\<^sup>0\<^sup>7\<^sup>4\<close>), overflow to infinity from
  \<open>2\<^sup>1\<^sup>0\<^sup>2\<^sup>4\<close> on.
\<close>

definition round_double :: "real \<Rightarrow> double" where
  "round_double x =
     (if x = 0 then Fin 0
      else (let e = max (ilog2 \<bar>x\<bar>) (- 1022) in
            let m = rne (x / pow2 (e - 52)) in
            if pow2 1024 \<le> \<bar>of_int m * pow2 (e - 52)\<bar>
            then (if 0 < x then PInf else NInf)
            else Fin (of_int m * pow2 (e - 52))))"

fun is_finite :: "double \<Rightarrow> bool" where
  "is_finite (Fin x) = True"
| "is_finite d = False"

fun dabs :: "double \<Rightarrow> double" where
  "dabs (Fin x) = Fin \<bar>x\<bar>"
| "dabs PInf = PInf"
| "dabs NInf = PInf"
| "dabs NaN = NaN"

fun dneg :: "double \<Rightarrow> double" where
  "dneg (Fin x) = Fin (- x)"
| "dneg PInf = NInf"
| "dneg NInf = PInf"
| "dneg NaN = NaN"

fun dadd :: "double \<Rightarrow> double \<Rightarrow> double" where
  "dadd (Fin x) (Fin y) = round_double (x + y)"
| "dadd NaN b = NaN"
| "dadd a NaN = NaN"
| "dadd PInf NInf = NaN"
| "dadd NInf PInf = NaN"
| "dadd PInf b = PInf"
| "dadd a PInf = PInf"
| "dadd NInf b = NInf"
| "dadd a NInf = NInf"

definition dsub :: "double \<Rightarrow> double \<Rightarrow> double" where
  "dsub a b = dadd a (dneg b)"

text \<open>The sign of a double as \<open>-1\<close>, \<open>0\<close> or \<open>1\<close>, and the infinity of a sign.\<close>

fun dsign :: "double \<Rightarrow> real" where
  "dsign (Fin x) = sgn x"
| "dsign PInf = 1"
| "dsign NInf = - 1"
| "dsign NaN = 0"

definition signed_inf :: "real \<Rightarrow> double" where
  "signed_inf s = (if s = 0 then NaN else if 0 < s then PInf else NInf)"

fun dmul :: "double \<Rightarrow> double \<Rightarrow> double" where
  "dmul (Fin x) (Fin y) = round_double (x * y)"
| "dmul NaN b = NaN"
| "dmul a NaN = NaN"
| "dmul a b = signed_inf (dsign a * dsign b)"

text \<open>
  Division. A finite number divided by zero gives an infinity whose sign is taken from
  the dividend alone, the zero counted as positive; the program only divides by
  \<^verbatim>\<open>1e-300 + abs(...)\<close> and by the non-zero dimensions of an array.
\<close>

fun ddiv :: "double \<Rightarrow> double \<Rightarrow> double" where
  "ddiv (Fin x) (Fin y) = (if y = 0 then signed_inf (sgn x) else round_double (x / y))"
| "ddiv NaN b = NaN"
| "ddiv a NaN = NaN"
| "ddiv (Fin x) b = Fin 0"
| "ddiv a (Fin y) = signed_inf (dsign a * (if y < 0 then - 1 else 1))"
| "ddiv a b = NaN"

fun dle :: "double \<Rightarrow> double \<Rightarrow> bool" where
  "dle (Fin x) (Fin y) = (x \<le> y)"
| "dle NaN b = False"
| "dle a NaN = False"
| "dle NInf b = True"
| "dle a PInf = True"
| "dle a b = False"

text \<open>IEEE equality: a NaN equals nothing.\<close>

definition deq :: "double \<Rightarrow> double \<Rightarrow> bool" where
  "deq a b = (a = b \<and> a \<noteq> NaN)"

text \<open>\<^verbatim>\<open>np.maximum\<close>, the step of \<^verbatim>\<open>ndarray.max\<close>: a NaN operand gives NaN.\<close>

definition dmax :: "double \<Rightarrow> double \<Rightarrow> double" where
  "dmax a b = (if a = NaN \<or> b = NaN then NaN else if dle a b then b else a)"

text \<open>The integer square root, and the square root of a real rounded to an integer.\<close>

fun isqrt :: "nat \<Rightarrow> nat" where
  "isqrt n =
     (if n = 0 then 0
      else (let r = 2 * isqrt (n div 4) in if (r + 1) * (r + 1) \<le> n then r + 1 else r))"

declare isqrt.simps [simp del]

definition sqrt_rne :: "real \<Rightarrow> int" where
  "sqrt_rne r =
     (let n = int (isqrt (nat \<lfloor>r\<rfloor>))
      in if r < (of_int n + 1 / 2) * (of_int n + 1 / 2) then n
         else if (of_int n + 1 / 2) * (of_int n + 1 / 2) < r then n + 1
         else if even n then n else n + 1)"

text \<open>
  The correctly rounded square root: for \<open>2\<^sup>2\<^sup>k \<le> x < 2\<^sup>2\<^sup>k\<^sup>+\<^sup>2\<close> the root lies in
  \<open>[2\<^sup>k, 2\<^sup>k\<^sup>+\<^sup>1)\<close>, where doubles are \<open>2\<^sup>k\<^sup>-\<^sup>5\<^sup>2\<close> apart.
\<close>

fun dsqrt :: "double \<Rightarrow> double" where
  "dsqrt (Fin x) =
     (if x < 0 then NaN
      else if x = 0 then Fin 0
      else (let k = ilog2 x div 2
            in Fin (of_int (sqrt_rne (x / (pow2 (k - 52) * pow2 (k - 52)))) * pow2 (k - 52))))"
| "dsqrt PInf = PInf"
| "dsqrt NInf = NaN"
| "dsqrt NaN = NaN"

text \<open>A Python \<^verbatim>\<open>int\<close> used in float arithmetic.\<close>

definition double_of_nat :: "nat \<Rightarrow> double" where
  "double_of_nat n = round_double (real n)"

text \<open>The literals \<^verbatim>\<open>1e-10\<close> and \<^verbatim>\<open>1e-300\<close>: the doubles nearest to the decimal values.\<close>

definition d_1e_10 :: double where
  "d_1e_10 = round_double (1 / 10 ^ 10)"

definition d_1e_300 :: double where
  "d_1e_300 = round_double (1 / 10 ^ 300)"

text \<open>
  \<^verbatim>\<open>np.isclose(a, b, rtol, atol)\<close> on scalars: \<^verbatim>\<open>abs(a - b) <= atol + rtol * abs(b)\<close>
  in double arithmetic where both are finite, and equality otherwise (equal infinities
  are close, a NaN is close to nothing).
\<close>

definition isclose :: "double \<Rightarrow> double \<Rightarrow> double \<Rightarrow> double \<Rightarrow> bool" where
  "isclose a b rtol atol =
     (if is_finite a \<and> is_finite b
      then dle (dabs (dsub a b)) (dadd atol (dmul rtol (dabs b)))
      else deq a b)"

text \<open>
  \<^verbatim>\<open>
  def _timecheck(t1, t2):
      return np.isclose(t1, t2, atol=1e-10, rtol=1e-10)
  \<close>
\<close>

definition timecheck :: "double \<Rightarrow> double \<Rightarrow> bool" where
  "timecheck t1 t2 = isclose t1 t2 d_1e_10 d_1e_10"

section \<open>Sample matrices\<close>

text \<open>
  A two-dimensional NumPy array of doubles: its rows, and the number of columns (which
  an array with no rows still has). In every matrix the program builds, each row has
  \<open>ncols\<close> entries.
\<close>

datatype matrix = Matrix (ncols: nat) (rows: "double list list")

definition nrows :: "matrix \<Rightarrow> nat" where
  "nrows m = length (rows m)"

definition wf_matrix :: "matrix \<Rightarrow> bool" where
  "wf_matrix m = list_all (\<lambda>r. length r = ncols m) (rows m)"

function chop :: "nat \<Rightarrow> 'a list \<Rightarrow> 'a list list" where
  "chop c xs = (if c = 0 \<or> xs = [] then [] else take c xs # chop c (drop c xs))"
  by pat_completeness auto
termination
  by (relation "measure (\<lambda>(c, xs). length xs)") auto

declare chop.simps [simp del]

text \<open>\<^verbatim>\<open>vals.reshape((-1, c))\<close>: the flat data cut into rows of \<open>c\<close> numbers.\<close>

definition reshape_rows :: "double list \<Rightarrow> nat \<Rightarrow> error + matrix" where
  "reshape_rows vals c =
     (if c = 0 \<or> length vals mod c \<noteq> 0 then Inl ValueError
      else Inr (Matrix c (chop c vals)))"

text \<open>\<^verbatim>\<open>vals[:, indicies]\<close>: the listed columns, in the listed order.\<close>

definition take_cols :: "matrix \<Rightarrow> nat list \<Rightarrow> error + matrix" where
  "take_cols m idx =
     (if list_all (\<lambda>i. i < ncols m) idx
      then Inr (Matrix (length idx) (map (\<lambda>r. map (\<lambda>i. r ! i) idx) (rows m)))
      else Inl IndexError)"

text \<open>\<^verbatim>\<open>np.expand_dims(vals[:, 0], 1)\<close>: column 0 as a matrix of one column.\<close>

definition first_col :: "matrix \<Rightarrow> error + matrix" where
  "first_col m =
     (if 0 < ncols m then Inr (Matrix 1 (map (\<lambda>r. [r ! 0]) (rows m)))
      else Inl IndexError)"

text \<open>\<^verbatim>\<open>np.hstack((a, b))\<close>: side by side; the row counts must agree.\<close>

definition hstack :: "matrix \<Rightarrow> matrix \<Rightarrow> error + matrix" where
  "hstack a b =
     (if nrows a = nrows b
      then Inr (Matrix (ncols a + ncols b) (map2 (@) (rows a) (rows b)))
      else Inl ValueError)"

section \<open>The loader\<close>

text \<open>
  What \<^verbatim>\<open>load\<close> reads from the file system. An entry of
  \<^verbatim>\<open><case>/postProcessing/extractAxial\<close> has a name, which \<^verbatim>\<open>float(...)\<close> parses to a
  double or rejects with \<^verbatim>\<open>ValueError\<close> (\<open>None\<close>), and, when it is a directory, files:
  \<open>tdir_files\<close> maps a file name to the numbers \<^verbatim>\<open>np.fromfile(..., sep='\n')\<close> reads from
  it, and is \<open>None\<close> for a file that does not exist. An entry of the working directory
  has a name and, when it is a directory, the entries of its
  \<^verbatim>\<open>postProcessing/extractAxial\<close> (\<open>None\<close> when that path is missing, where
  \<^verbatim>\<open>os.listdir\<close> raises \<^verbatim>\<open>FileNotFoundError\<close>).
\<close>

datatype time_dir =
  Time_Dir (tdir_isdir: bool) (tdir_time: "double option")
    (tdir_files: "string \<rightharpoonup> double list")

datatype case_dir =
  Case_Dir (case_name: string) (case_isdir: bool) (case_times: "time_dir list option")


definition times :: "case_dir \<Rightarrow> error + time_dir list" where
  "times c =
     (case case_times c of
        None \<Rightarrow> Inl FileNotFoundError
      | Some entries \<Rightarrow> Inr (filter tdir_isdir entries))"

text \<open>
  The body of the loop over the batches (lines 204 to 215 of \<^verbatim>\<open>valid.py\<close>):
  \<^verbatim>\<open>
  for f in _field_iter(fields, for_extract=False):
      vals = np.fromfile(os.path.join(time, 'line_{}.xy'.format(
          _make_fields(f, for_extract=False))), sep='\n')
      vals = vals.reshape((-1, _num_fields(f, for_extract=False) + 1))
      indicies = np.array([1 + _field_index(x, f, for_extract=False)
                           for x in f])
      svals = vals[:, indicies]
      if composite_fields is None:
          composite_fields = np.hstack((
              np.expand_dims(vals[:, 0], 1), svals))
      else:
          composite_fields = np.hstack((composite_fields, svals))
  \<close>
\<close>

definition batch_file :: "string list \<Rightarrow> string" where
  "batch_file f = ''line_'' @ make_fields f False @ ''.xy''"

definition batch_indicies :: "string list \<Rightarrow> error + nat list" where
  "batch_indicies f =
     map_err (\<lambda>x. ebind (field_index x f False) (\<lambda>i. Inr (1 + i))) f"

definition load_batch :: "time_dir \<Rightarrow> matrix option \<Rightarrow> string list \<Rightarrow> error + matrix option" where
  "load_batch td composite_fields f =
     (case tdir_files td (batch_file f) of
        None \<Rightarrow> Inl FileNotFoundError
      | Some flat \<Rightarrow>
          ebind (reshape_rows flat (num_fields f False + 1)) (\<lambda>vals.
          ebind (batch_indicies f) (\<lambda>indicies.
          ebind (take_cols vals indicies) (\<lambda>svals.
            (case composite_fields of
               None \<Rightarrow>
                 ebind (first_col vals) (\<lambda>pos.
                 ebind (hstack pos svals) (\<lambda>m. Inr (Some m)))
             | Some c \<Rightarrow> ebind (hstack c svals) (\<lambda>m. Inr (Some m)))))))"

fun load_batches :: "time_dir \<Rightarrow> matrix option \<Rightarrow> string list list \<Rightarrow> error + matrix option" where
  "load_batches td composite_fields [] = Inr composite_fields"
| "load_batches td composite_fields (f # fs) =
     ebind (load_batch td composite_fields f) (\<lambda>c. load_batches td c fs)"

definition assemble :: "string list \<Rightarrow> time_dir \<Rightarrow> error + matrix option" where
  "assemble fields td = load_batches td None (field_iter fields False)"

text \<open>
  The results of one case, \<^verbatim>\<open>results[nicecase]\<close>: a dictionary from a requested time to
  the matrix stored for it (\<open>None\<close> for Python's \<^verbatim>\<open>None\<close>, which is what
  \<^verbatim>\<open>composite_fields\<close> still is when the field list is empty). Dictionaries are
  association lists in insertion order. The state of the loader while it reads a case is
  the set \<^verbatim>\<open>timev\<close> and that dictionary.
\<close>

type_synonym case_results = "(double \<times> matrix option) list"

type_synonym results = "(string \<times> case_results) list"

text \<open>
  The body of the loop over the times of a case (lines 199 to 219):
  \<^verbatim>\<open>
  t = float(os.path.basename(time))
  if timelist and not any(_timecheck(x, t) for x in timelist):
      continue
  composite_fields = None
  for f in _field_iter(fields, for_extract=False): ...
  nice_t = next(x for x in timelist if _timecheck(x, t))
  results[nicecase][nice_t] = composite_fields
  timev.add(float(nice_t))
  \<close>
  Every exception is raised before the two assignments, so the step either fails or
  returns the new state.
\<close>

definition load_time ::
  "string list \<Rightarrow> double list \<Rightarrow> time_dir \<Rightarrow> double set \<times> case_results
     \<Rightarrow> error + double set \<times> case_results" where
  "load_time fields timelist td st =
     (case tdir_time td of
        None \<Rightarrow> Inl ValueError
      | Some t \<Rightarrow>
          if timelist \<noteq> [] \<and> \<not> list_ex (\<lambda>x. timecheck x t) timelist then Inr st
          else ebind (assemble fields td) (\<lambda>composite_fields.
            (case find (\<lambda>x. timecheck x t) timelist of
               None \<Rightarrow> Inl StopIteration
             | Some nice_t \<Rightarrow>
                 Inr (insert nice_t (fst st), AList.update nice_t composite_fields (snd st)))))"







section \<open>The validator\<close>

text \<open>\<^verbatim>\<open>m[:, 1:]\<close>: the matrix without its first column.\<close>

definition drop_first_col :: "matrix \<Rightarrow> matrix" where
  "drop_first_col m = Matrix (ncols m - 1) (map (drop 1) (rows m))"

text \<open>
  NumPy broadcasting of two shapes along one axis: equal lengths, or one of them 1,
  which is then repeated; anything else raises \<^verbatim>\<open>ValueError\<close>.
\<close>

definition bdim :: "nat \<Rightarrow> nat \<Rightarrow> nat option" where
  "bdim a b = (if a = b then Some a else if a = 1 then Some b else if b = 1 then Some a else None)"

definition stretch :: "nat \<Rightarrow> nat \<Rightarrow> 'a list \<Rightarrow> 'a list" where
  "stretch d n xs = (if d = 1 then replicate n (hd xs) else xs)"

definition broadcast2 ::
  "(double \<Rightarrow> double \<Rightarrow> double) \<Rightarrow> matrix \<Rightarrow> matrix \<Rightarrow> error + matrix" where
  "broadcast2 f a b =
     (case (bdim (nrows a) (nrows b), bdim (ncols a) (ncols b)) of
        (Some r, Some c) \<Rightarrow>
          Inr (Matrix c
                (map2 (\<lambda>ra rb. map2 f (stretch (ncols a) c ra) (stretch (ncols b) c rb))
                   (stretch (nrows a) r (rows a)) (stretch (nrows b) r (rows b))))
      | _ \<Rightarrow> Inl ValueError)"

definition map_matrix :: "(double \<Rightarrow> double) \<Rightarrow> matrix \<Rightarrow> matrix" where
  "map_matrix f m = Matrix (ncols m) (map (map f) (rows m))"

text \<open>
  \<^verbatim>\<open>np.linalg.norm(x, ord=np.inf, axis=...)\<close> of a vector is \<^verbatim>\<open>abs(x).max()\<close>, which
  raises \<^verbatim>\<open>ValueError\<close> on an empty vector. With \<^verbatim>\<open>ord=2\<close> it is
  \<^verbatim>\<open>sqrt(add.reduce(x * x))\<close>; the sum is taken from left to right, starting from zero.
  (NumPy sums eight or more numbers in a different association; no statement below
  depends on the order for such sums.)
\<close>

definition norm_inf :: "double list \<Rightarrow> error + double" where
  "norm_inf x =
     (case map dabs x of
        [] \<Rightarrow> Inl ValueError
      | a # as \<Rightarrow> Inr (foldl dmax a as))"

definition norm_2 :: "double list \<Rightarrow> double" where
  "norm_2 x = dsqrt (foldl dadd (Fin 0) (map (\<lambda>v. dmul v v) x))"

text \<open>\<^verbatim>\<open>m[:, ind]\<close>: one column, \<^verbatim>\<open>IndexError\<close> when there is no such column.\<close>

definition column :: "matrix \<Rightarrow> nat \<Rightarrow> error + double list" where
  "column m ind = (if ind < ncols m then Inr (map (\<lambda>r. r ! ind) (rows m)) else Inl IndexError)"

text \<open>
  \<^verbatim>\<open>np.where(v == m)[1]\<close>: the column indices of the entries equal to \<open>v\<close>, in row-major
  order.
\<close>

definition where_cols :: "double \<Rightarrow> matrix \<Rightarrow> nat list" where
  "where_cols v m = concat (map (\<lambda>r. filter (\<lambda>j. deq v (r ! j)) [0..<length r]) (rows m))"

text \<open>Python's \<^verbatim>\<open>xs[i]\<close> for \<open>i \<ge> 0\<close>.\<close>

definition nth_err :: "'a list \<Rightarrow> nat \<Rightarrow> error + 'a" where
  "nth_err xs i = (if i < length xs then Inr (xs ! i) else Inl IndexError)"

text \<open>
  The error of one named field, when it is among the fields (lines 294 to 301):
  \<^verbatim>\<open>
  if 'T' in fields:
      ind = fields.index('T')
      T_err = np.linalg.norm(diff[:, ind], ord=np.inf, axis=0) * 100.
      print('Maximum temperature error:', T_err)
  \<close>
\<close>

definition field_err :: "string \<Rightarrow> string list \<Rightarrow> matrix \<Rightarrow> error + double option" where
  "field_err name fields diff =
     (case index_of name fields of
        None \<Rightarrow> Inr None
      | Some ind \<Rightarrow>
          ebind (column diff ind) (\<lambda>col.
          ebind (norm_inf col) (\<lambda>n. Inr (Some (dmul n (Fin 100))))))"

text \<open>What \<^verbatim>\<open>validate\<close> prints for one comparison.\<close>

datatype report =
  Report (rep_case: string) (rep_time: double) (rep_T_err: "double option")
    (rep_p_err: "double option") (rep_inf: double) (rep_mean: double) (rep_field: string)

text \<open>
  The comparison of a candidate with the baseline (lines 284 to 303):
  \<^verbatim>\<open>
  diff = np.abs(comp[:, 1:] - test[:, 1:]) / (
      1e-300 + np.abs(comp[:, 1:]))
  rel_err_inf = np.linalg.norm(
      np.linalg.norm(diff, ord=np.inf, axis=1), ord=np.inf, axis=0)
  loc = np.where(rel_err_inf == diff)
  rel_err_inf *= 100
  rel_err_mean = np.linalg.norm(
      np.linalg.norm(diff, ord=2, axis=1) / diff.shape[1],
      ord=2, axis=0) * 100. / diff.shape[0]
  ...
  print(case, time, "rel(max, mean)", rel_err_inf, rel_err_mean, "%",
        'Max error for: ', fields[loc[1][0]])
  \<close>
  Slicing \<^verbatim>\<open>None\<close> raises \<^verbatim>\<open>TypeError\<close>.
\<close>

definition rel_diff :: "matrix \<Rightarrow> matrix \<Rightarrow> error + matrix" where
  "rel_diff comp' test =
     ebind (broadcast2 dsub (drop_first_col comp') (drop_first_col test)) (\<lambda>d.
       broadcast2 ddiv (map_matrix dabs d)
         (map_matrix (\<lambda>v. dadd d_1e_300 (dabs v)) (drop_first_col comp')))"

definition rel_err_mean :: "matrix \<Rightarrow> double" where
  "rel_err_mean diff =
     ddiv (dmul (norm_2 (map (\<lambda>r. ddiv (norm_2 r) (double_of_nat (ncols diff))) (rows diff)))
             (Fin 100))
       (double_of_nat (nrows diff))"

definition compare ::
  "string list \<Rightarrow> string \<Rightarrow> double \<Rightarrow> matrix option \<Rightarrow> matrix option \<Rightarrow> error + report" where
  "compare fields case_nm time comp' test =
     (case (comp', test) of
        (Some c, Some t) \<Rightarrow>
          ebind (rel_diff c t) (\<lambda>diff.
          ebind (map_err norm_inf (rows diff)) (\<lambda>row_norms.
          ebind (norm_inf row_norms) (\<lambda>rel_err_inf.
          ebind (field_err ''T'' fields diff) (\<lambda>T_err.
          ebind (field_err ''p'' fields diff) (\<lambda>p_err.
          ebind (nth_err (where_cols rel_err_inf diff) 0) (\<lambda>loc.
          ebind (nth_err fields loc) (\<lambda>worst.
            Inr (Report case_nm time T_err p_err (dmul rel_err_inf (Fin 100))
                   (rel_err_mean diff) worst))))))))
      | _ \<Rightarrow> Inl TypeError)"

text \<open>
  The loop over the cases for one time (lines 279 to 303): the baseline itself and the
  cases without data for the time are passed over.
\<close>

fun validate_cases ::
  "string list \<Rightarrow> string \<Rightarrow> double \<Rightarrow> matrix option \<Rightarrow> results \<Rightarrow> error + report list" where
  "validate_cases fields base time comp' [] = Inr []"
| "validate_cases fields base time comp' ((case_nm, cres) # rest) =
     (if case_nm = base then validate_cases fields base time comp' rest
      else (case map_of cres time of
              None \<Rightarrow> validate_cases fields base time comp' rest
            | Some test \<Rightarrow>
                ebind (compare fields case_nm time comp' test) (\<lambda>r.
                ebind (validate_cases fields base time comp' rest) (\<lambda>rs. Inr (r # rs)))))"

text \<open>
  \<^verbatim>\<open>
  def validate(times, results, fields, base='SandiaD_LTS'):
      for time in times:
          comp = results[base][time]
          for case in results: ...
  \<close>
  The times (\<open>times'\<close>: the parameter hides the function \<^verbatim>\<open>times\<close>) are taken in the
  order the loop visits them. The result is the list of the
  comparisons printed, or the exception that ended the run.
\<close>

fun validate :: "double list \<Rightarrow> results \<Rightarrow> string list \<Rightarrow> string \<Rightarrow> error + report list" where
  "validate [] results fields base = Inr []"
| "validate (time # times') results fields base =
     (case map_of results base of
        None \<Rightarrow> Inl KeyError
      | Some bres \<Rightarrow>
          (case map_of bres time of
             None \<Rightarrow> Inl KeyError
           | Some comp' \<Rightarrow>
               ebind (validate_cases fields base time comp' results) (\<lambda>rs.
               ebind (validate times' results fields base) (\<lambda>rss. Inr (rs @ rss)))))"

section \<open>Example data\<close>

text \<open>
  A time directory for the requested field \<^verbatim>\<open>T\<close>: its one batch file holds two rows of
  seven numbers, the position and the six fields \<^verbatim>\<open>G T alphat epsilon k nut\<close>.
\<close>

definition ex_flat :: "double list" where
  "ex_flat = [Fin 0, Fin 1, Fin 300, Fin 2, Fin 3, Fin 4, Fin 5,
              Fin 1, Fin 1, Fin 310, Fin 2, Fin 3, Fin 4, Fin 5]"

definition ex_tdir :: "double \<Rightarrow> time_dir" where
  "ex_tdir t = Time_Dir True (Some t) [''line_G_T_alphat_epsilon_k_nut.xy'' \<mapsto> ex_flat]"

text \<open>A time close to \<open>1\<close>, but not \<open>1\<close>: the double \<open>1 + 2\<^sup>-\<^sup>4\<^sup>0\<close>.\<close>

definition ex_time :: double where
  "ex_time = Fin (1 + 1 / 2 ^ 40)"

definition ex_matrix :: matrix where
  "ex_matrix = Matrix 2 [[Fin 0, Fin 300], [Fin 1, Fin 310]]"



text \<open>
  The scenario of the specification: fields \<^verbatim>\<open>T\<close> and \<^verbatim>\<open>p\<close> at two points, a baseline and a
  candidate whose temperature differs at the first point and whose pressure differs at
  the second.
\<close>

definition ex_base :: matrix where
  "ex_base = Matrix 3 [[Fin 0, Fin 300, Fin 100000], [Fin 1, Fin 310, Fin 101000]]"

definition ex_cand :: matrix where
  "ex_cand = Matrix 3 [[Fin 0, Fin 303, Fin 100000], [Fin 1, Fin 310, Fin 102010]]"

definition ex_results :: results where
  "ex_results = [(''SandiaD_LTS'', [(Fin 5000, Some ex_base)]),
                 (''SandiaD_LTS_seulex'', [(Fin 5000, Some ex_cand)])]"

text \<open>The double nearest to \<open>0.01\<close>.\<close>

definition d_0_01 :: double where
  "d_0_01 = Fin (5764607523034235 / 2 ^ 59)"

section \<open>Properties of the batch iterator\<close>

lemma field_iter_Nil: "field_iter [] fe = []"
  by (simp add: field_iter.simps)

lemma field_iter_concat: "concat (field_iter fs fe) = fs"
proof (induction fs fe rule: field_iter.induct)
  case (1 field_list for_extract)
  show ?case
  proof (cases "field_list = []")
    case True
    then show ?thesis by (simp add: field_iter_Nil)
  next
    case False
    from "1" [OF False refl]
    have "concat (field_iter (drop (min 10 (length field_list)) field_list) for_extract)
            = drop (min 10 (length field_list)) field_list" .
    with False show ?thesis
      by (subst field_iter.simps) (simp add: Let_def)
  qed
qed

lemma field_iter_sizes:
  "b \<in> set (field_iter fs fe) \<Longrightarrow> 1 \<le> length b \<and> length b \<le> 10"
proof (induction fs fe rule: field_iter.induct)
  case (1 field_list for_extract)
  show ?case
  proof (cases "field_list = []")
    case True
    with "1.prems" show ?thesis by (simp add: field_iter_Nil)
  next
    case False
    from "1.prems" False
    have "b = take (min 10 (length field_list)) field_list
          \<or> b \<in> set (field_iter (drop (min 10 (length field_list)) field_list) for_extract)"
      by (subst (asm) field_iter.simps) (simp add: Let_def)
    then show ?thesis
    proof
      assume "b = take (min 10 (length field_list)) field_list"
      with False show ?thesis by (cases field_list) auto
    next
      assume "b \<in> set (field_iter (drop (min 10 (length field_list)) field_list) for_extract)"
      with "1.IH" [OF False refl] show ?thesis .
    qed
  qed
qed

text \<open>
  Claim C5. For every field list, the batch iterator yields batches that each hold at
  least one and at most ten fields, and the batches concatenated in order are the input
  list itself, so the order of the fields is kept within and across batches; the empty
  field list yields no batch.
\<close>

theorem field_iter_batches:
  "concat (field_iter fs fe) = fs
   \<and> (\<forall>b \<in> set (field_iter fs fe). 1 \<le> length b \<and> length b \<le> 10)
   \<and> field_iter ([] :: 'a list) fe = []"
  using field_iter_concat [of fs fe] field_iter_sizes [of _ fs fe] field_iter_Nil [of fe]
  by blast

text \<open>Twelve fields make a batch of ten and a batch of two.\<close>

theorem field_iter_batches_witness:
  "field_iter [''AR'', ''C'', ''C2H'', ''C2H2'', ''C2H3'', ''C2H4'', ''C2H5'', ''C2H6'', ''C3H7'',
       ''C3H8'', ''T'', ''p''] False
     = [[''AR'', ''C'', ''C2H'', ''C2H2'', ''C2H3'', ''C2H4'', ''C2H5'', ''C2H6'', ''C3H7'', ''C3H8''],
        [''T'', ''p'']]
   \<and> concat (field_iter [''AR'', ''C'', ''C2H'', ''C2H2'', ''C2H3'', ''C2H4'', ''C2H5'', ''C2H6'',
       ''C3H7'', ''C3H8'', ''T'', ''p''] False)
     = [''AR'', ''C'', ''C2H'', ''C2H2'', ''C2H3'', ''C2H4'', ''C2H5'', ''C2H6'', ''C3H7'', ''C3H8'',
        ''T'', ''p'']
   \<and> [''T'', ''p''] \<in> set (field_iter [''AR'', ''C'', ''C2H'', ''C2H2'', ''C2H3'', ''C2H4'', ''C2H5'',
       ''C2H6'', ''C3H7'', ''C3H8'', ''T'', ''p''] False)
   \<and> 1 \<le> length [''T'', ''p''] \<and> length [''T'', ''p''] \<le> 10"
proof -
  let ?fs = "[''AR'', ''C'', ''C2H'', ''C2H2'', ''C2H3'', ''C2H4'', ''C2H5'', ''C2H6'', ''C3H7'',
       ''C3H8'', ''T'', ''p'']"
  have e: "field_iter ?fs False
     = [[''AR'', ''C'', ''C2H'', ''C2H2'', ''C2H3'', ''C2H4'', ''C2H5'', ''C2H6'', ''C3H7'', ''C3H8''],
        [''T'', ''p'']]"
    by (simp add: field_iter.simps)
  have m: "[''T'', ''p''] \<in> set (field_iter ?fs False)"
    unfolding e by simp
  from field_iter_batches [of ?fs False] m
  have "concat (field_iter ?fs False) = ?fs"
    and "1 \<le> length [''T'', ''p''] \<and> length [''T'', ''p''] \<le> 10"
    by blast+
  with e m show ?thesis by blast
qed

lemma field_iter_flag: "field_iter fs fe = field_iter fs fe'"
proof (induction fs fe rule: field_iter.induct)
  case (1 field_list for_extract)
  show ?case
  proof (cases "field_list = []")
    case True
    then show ?thesis by (simp add: field_iter_Nil)
  next
    case False
    from "1" [OF False refl]
    have "field_iter (drop (min 10 (length field_list)) field_list) for_extract
            = field_iter (drop (min 10 (length field_list)) field_list) fe'" .
    with False show ?thesis
      by (subst field_iter.simps, subst (2) field_iter.simps) (simp add: Let_def)
  qed
qed

lemma finite_full_fields: "finite ((req_fields \<union> set fs) - s)"
  by (simp add: req_fields_def)

lemma make_full_fields_set:
  "set (make_full_fields fs fe) = (req_fields \<union> set fs) - (if fe then {} else {''U''})"
  using finite_full_fields [of fs "if fe then {} else {''U''}"]
  by (simp add: make_full_fields_def Let_def del: Un_insert_left Un_insert_right)

lemma make_full_fields_sorted:
  "sorted (make_full_fields fs fe) \<and> distinct (make_full_fields fs fe)"
  by (simp add: make_full_fields_def Let_def)

text \<open>
  Claim C2, as the code has it. The batch iterator does not build the canonical full
  field list: it cuts the requested list, as given, into batches of at most ten fields,
  whose concatenation is the requested list, and it does so whatever the context flag
  is, so extraction and loading batch a list in the same way. The canonical list
  (required and requested fields, without \<^verbatim>\<open>U\<close> when not extracting, sorted and without
  repetitions) is formed from each batch on its own, by \<^verbatim>\<open>_make_full_fields\<close>.
\<close>

theorem field_batching:
  "concat (field_iter fields for_extract) = fields
   \<and> field_iter fields True = field_iter fields False
   \<and> (\<forall>f \<in> set (field_iter fields for_extract).
        length f \<le> 10
        \<and> sorted (make_full_fields f for_extract)
        \<and> distinct (make_full_fields f for_extract)
        \<and> set (make_full_fields f for_extract)
            = (req_fields \<union> set f) - (if for_extract then {} else {''U''}))"
  using field_iter_concat [of fields for_extract] field_iter_flag [of fields True False]
    field_iter_sizes [of _ fields for_extract] make_full_fields_sorted make_full_fields_set
  by blast

theorem field_batching_witness:
  "concat (field_iter [''T'', ''p''] False) = [''T'', ''p'']
   \<and> [''T'', ''p''] \<in> set (field_iter [''T'', ''p''] False)
   \<and> length [''T'', ''p''] \<le> 10
   \<and> make_full_fields [''T'', ''p''] False
       = [''G'', ''T'', ''alphat'', ''epsilon'', ''k'', ''nut'', ''p'']
   \<and> sorted (make_full_fields [''T'', ''p''] False)
   \<and> set (make_full_fields [''T'', ''p''] False) = (req_fields \<union> set [''T'', ''p'']) - {''U''}"
proof -
  have e: "field_iter [''T'', ''p''] False = [[''T'', ''p'']]"
    by (simp add: field_iter.simps)
  have m: "[''T'', ''p''] \<in> set (field_iter [''T'', ''p''] False)"
    unfolding e by simp
  have v: "make_full_fields [''T'', ''p''] False
       = [''G'', ''T'', ''alphat'', ''epsilon'', ''k'', ''nut'', ''p'']"
    by code_simp
  from field_batching [of "[''T'', ''p'']" False] m
  have "concat (field_iter [''T'', ''p''] False) = [''T'', ''p'']"
    and "sorted (make_full_fields [''T'', ''p''] False)"
    and "set (make_full_fields [''T'', ''p''] False) = (req_fields \<union> set [''T'', ''p'']) - {''U''}"
    by (simp_all del: set_simps)
  with m v show ?thesis by simp
qed

text \<open>
  The claim as stated fails: for the requested list \<^verbatim>\<open>['T']\<close> the batches concatenate to
  \<^verbatim>\<open>['T']\<close>, not to the canonical full field list of seven names.
\<close>

theorem field_batching_counterexample:
  "concat (field_iter [''T''] True) = [''T'']
   \<and> make_full_fields [''T''] True = [''G'', ''T'', ''U'', ''alphat'', ''epsilon'', ''k'', ''nut'']
   \<and> concat (field_iter [''T''] True) \<noteq> make_full_fields [''T''] True"
  by (simp add: field_iter.simps make_full_fields_def req_fields_def)

section \<open>Properties of the rounding\<close>

lemma pow2_pos: "0 < pow2 k"
  by (simp add: pow2_def)

lemma pow2_powi: "pow2 k = 2 powi k"
proof (cases "0 \<le> k")
  case True
  then show ?thesis by (simp add: pow2_def power_int_def)
next
  case False
  have "inverse (2::real) ^ n = 1 / 2 ^ n" for n
    by (simp add: inverse_eq_divide power_one_over)
  with False show ?thesis by (simp add: pow2_def power_int_def)
qed

lemma pow2_add: "pow2 (a + b) = pow2 a * pow2 b"
  by (simp add: pow2_powi power_int_add)

lemma pow2_mono: "a \<le> b \<Longrightarrow> pow2 a \<le> pow2 b"
  by (simp add: pow2_powi power_int_increasing)

lemma pow2_Suc: "pow2 (k + 1) = 2 * pow2 k"
  using pow2_add [of k 1] by (simp add: pow2_def)

lemma pow2_of_nat: "pow2 (int n) = 2 ^ n"
  by (simp add: pow2_def)

lemma pow2_neg: "pow2 (- k) = 1 / pow2 k"
  using pow2_add [of k "- k"] pow2_pos [of k] by (simp add: pow2_def field_simps)

lemma bit_length_pos: "0 < n \<Longrightarrow> 0 < bit_length n"
  by (subst bit_length.simps) simp

lemma bit_length_bounds: "0 < n \<Longrightarrow> 2 ^ (bit_length n - 1) \<le> n \<and> n < 2 ^ bit_length n"
proof (induction n rule: bit_length.induct)
  case (1 n)
  show ?case
  proof (cases "n div 2 = 0")
    case True
    with "1.prems" have "n = 1" by presburger
    then show ?thesis
      by (simp add: bit_length.simps [of "Suc 0"] bit_length.simps [of 0])
  next
    case False
    then have pos: "0 < n div 2" by simp
    define X :: nat where "X = 2 ^ (bit_length (n div 2) - 1)"
    have "0 < bit_length (n div 2)"
      using pos by (rule bit_length_pos)
    then have X2: "2 ^ bit_length (n div 2) = 2 * X"
      unfolding X_def by (cases "bit_length (n div 2)") simp_all
    from "1.IH" [OF _ pos] "1.prems"
    have ih: "X \<le> n div 2" "n div 2 < 2 * X"
      unfolding X2 [symmetric] by (simp_all add: X_def)
    have bl: "bit_length n = Suc (bit_length (n div 2))"
      using "1.prems" by (subst bit_length.simps) simp
    have d: "2 * (n div 2) \<le> n" "n < 2 * (n div 2) + 2" by presburger+
    have "2 * X \<le> n" "n < 2 * (2 * X)" using ih d by linarith+
    then show ?thesis unfolding bl by (simp add: X2 X_def [symmetric])
  qed
qed

lemma nat_floor_bounds:
  fixes y :: real
  assumes "1 \<le> y"
  shows "0 < nat \<lfloor>y\<rfloor>" "real (nat \<lfloor>y\<rfloor>) \<le> y" "y < real (nat \<lfloor>y\<rfloor>) + 1"
proof -
  have f: "1 \<le> \<lfloor>y\<rfloor>" using assms by simp
  then show "0 < nat \<lfloor>y\<rfloor>" by simp
  have r: "real (nat \<lfloor>y\<rfloor>) = of_int \<lfloor>y\<rfloor>" using f by simp
  show "real (nat \<lfloor>y\<rfloor>) \<le> y" unfolding r by (rule of_int_floor_le)
  show "y < real (nat \<lfloor>y\<rfloor>) + 1" unfolding r by linarith
qed

text \<open>\<open>ilog2\<close> is the binary exponent.\<close>

lemma ilog2_bounds:
  assumes "0 < x"
  shows "pow2 (ilog2 x) \<le> x \<and> x < pow2 (ilog2 x + 1)"
proof (cases "1 \<le> x")
  case True
  define n where "n = nat \<lfloor>x\<rfloor>"
  have n: "0 < n" "real n \<le> x" "x < real n + 1"
    unfolding n_def using nat_floor_bounds [OF True] by blast+
  obtain k where k: "bit_length n = Suc k"
    using bit_length_pos [OF n(1)] by (cases "bit_length n") simp_all
  from bit_length_bounds [OF n(1)]
  have b: "2 ^ k \<le> n" "n + 1 \<le> 2 ^ Suc k"
    by (simp_all add: k)
  have il: "ilog2 x = int k"
    using True by (simp add: ilog2_def n_def [symmetric] k)
  have "(2::real) ^ k \<le> real n" using of_nat_mono [OF b(1), where 'a = real] by simp
  then have lo: "2 ^ k \<le> x" using n(2) by linarith
  have "real n + 1 \<le> 2 ^ Suc k" using of_nat_mono [OF b(2), where 'a = real] by simp
  then have hi: "x < 2 ^ Suc k" using n(3) by linarith
  have "int k + 1 = int (Suc k)" by simp
  then show ?thesis
    unfolding il using lo hi by (simp only: pow2_of_nat)
next
  case False
  define n where "n = nat \<lfloor>1 / x\<rfloor>"
  have x1: "1 \<le> 1 / x" using False assms by simp
  have n: "0 < n" "real n \<le> 1 / x" "1 / x < real n + 1"
    unfolding n_def using nat_floor_bounds [OF x1] by blast+
  obtain k where k: "bit_length n = Suc k"
    using bit_length_pos [OF n(1)] by (cases "bit_length n") simp_all
  from bit_length_bounds [OF n(1)]
  have bb: "2 ^ k \<le> n" "n + 1 \<le> 2 ^ Suc k"
    by (simp_all add: k)
  have "(2::real) ^ k \<le> real n" using of_nat_mono [OF bb(1), where 'a = real] by simp
  then have lo: "2 ^ k \<le> 1 / x" using n(2) by linarith
  have "real n + 1 \<le> 2 ^ Suc k" using of_nat_mono [OF bb(2), where 'a = real] by simp
  then have hi: "1 / x < 2 ^ Suc k" using n(3) by linarith
  have p1: "pow2 (- int k) = 1 / 2 ^ k"
    using pow2_neg [of "int k"] by (simp only: pow2_of_nat)
  have p2: "pow2 (- int (Suc k)) = 1 / 2 ^ Suc k"
    using pow2_neg [of "int (Suc k)"] by (simp only: pow2_of_nat)
  have xle: "x \<le> pow2 (- int k)"
    unfolding p1 using lo assms by (simp add: field_simps)
  have xgt: "pow2 (- int (Suc k)) < x"
    unfolding p2 using hi assms by (simp add: field_simps)
  have s: "1 - int (Suc k) = - int k" by simp
  have il: "ilog2 x = (if pow2 (- int k) \<le> x then - int k else - int (Suc k))"
    using False by (simp only: ilog2_def n_def [symmetric] k Let_def s if_False)
  show ?thesis
  proof (cases "pow2 (- int k) \<le> x")
    case True
    then have "ilog2 x = - int k" using il by simp
    moreover have "x < pow2 (- int k + 1)"
      using xle pow2_Suc [of "- int k"] pow2_pos [of "- int k"] by linarith
    ultimately show ?thesis using True by simp
  next
    case False
    then have "ilog2 x = - int (Suc k)" using il by simp
    moreover have "- int (Suc k) + 1 = - int k" by simp
    ultimately show ?thesis using False xle xgt by simp
  qed
qed

lemma ilog2_eqI:
  assumes "pow2 k \<le> x" "x < pow2 (k + 1)"
  shows "ilog2 x = k"
proof -
  have pos: "0 < x" using assms(1) pow2_pos [of k] by linarith
  note b = ilog2_bounds [OF pos]
  have "\<not> ilog2 x + 1 \<le> k"
  proof
    assume "ilog2 x + 1 \<le> k"
    from pow2_mono [OF this] b assms show False by linarith
  qed
  moreover have "\<not> k + 1 \<le> ilog2 x"
  proof
    assume "k + 1 \<le> ilog2 x"
    from pow2_mono [OF this] b assms show False by linarith
  qed
  ultimately show ?thesis by linarith
qed

lemma rne_bounds: "\<bar>x - of_int (rne x)\<bar> \<le> 1 / 2"
  unfolding rne_def Let_def by (auto; linarith)

lemma rne_eqI: "\<bar>x - of_int m\<bar> < 1 / 2 \<Longrightarrow> rne x = m"
  using rne_bounds [of x] by linarith

text \<open>
  A rounding is checked from its result: \<open>m\<close> is the integer nearest to \<open>x\<close> in units
  of the spacing \<open>2\<^sup>k\<^sup>-\<^sup>5\<^sup>2\<close> of the doubles around \<open>x\<close>.
\<close>

lemma round_double_eqI:
  assumes "pow2 k \<le> \<bar>x\<bar>" "\<bar>x\<bar> < pow2 (k + 1)" "- 1022 \<le> k"
    and "\<bar>x / pow2 (k - 52) - of_int m\<bar> < 1 / 2"
    and "\<bar>of_int m * pow2 (k - 52)\<bar> < pow2 1024"
  shows "round_double x = Fin (of_int m * pow2 (k - 52))"
proof -
  have nz: "x \<noteq> 0" using assms(1) pow2_pos [of k] by auto
  have e: "max (ilog2 \<bar>x\<bar>) (- 1022) = k"
    using ilog2_eqI [OF assms(1,2)] assms(3) by simp
  have m: "rne (x / pow2 (k - 52)) = m"
    using assms(4) by (rule rne_eqI)
  show ?thesis
    using nz assms(5) by (simp add: round_double_def e m)
qed

text \<open>A positive real that is not below the smallest subnormal does not round to zero.\<close>

lemma round_double_pos:
  assumes "pow2 (- 1074) \<le> x"
  shows "round_double x = PInf \<or> (\<exists>y. 0 < y \<and> round_double x = Fin y)"
proof -
  have pos: "0 < x" using assms pow2_pos [of "- 1074"] by linarith
  define e where "e = max (ilog2 \<bar>x\<bar>) (- 1022)"
  define u where "u = pow2 (e - 52)"
  define m where "m = rne (x / u)"
  have upos: "0 < u" unfolding u_def by (rule pow2_pos)
  have "u \<le> x"
  proof (cases "- 1022 \<le> ilog2 x")
    case True
    then have "e = ilog2 x" using pos by (simp add: e_def)
    then have "u \<le> pow2 (ilog2 x)" unfolding u_def by (simp add: pow2_mono)
    with ilog2_bounds [OF pos] show ?thesis by linarith
  next
    case False
    then have "e = - 1022" using pos by (simp add: e_def)
    then show ?thesis using assms by (simp add: u_def)
  qed
  then have "1 \<le> x / u" using upos by (simp add: field_simps)
  with rne_bounds [of "x / u"] have "1 \<le> m" unfolding m_def by linarith
  then have ypos: "0 < of_int m * u" using upos by simp
  have "round_double x =
      (if pow2 1024 \<le> \<bar>of_int m * u\<bar> then PInf else Fin (of_int m * u))"
    unfolding m_def u_def e_def using pos by (simp add: round_double_def Let_def)
  with ypos show ?thesis by auto
qed

text \<open>Evaluation of roundings by the simplifier.\<close>

lemmas double_eval = round_double_def ilog2_def rne_def pow2_def bit_length.simps

lemma d_1e_10_val: "d_1e_10 = Fin (7737125245533627 / 2 ^ 86)"
proof -
  have "round_double (1 / 10 ^ 10) = Fin (of_int 7737125245533627 * pow2 (- 34 - 52))"
    by (rule round_double_eqI) (simp_all add: pow2_def)
  then show ?thesis by (simp add: d_1e_10_def pow2_def)
qed

lemma d_1e_300_val: "d_1e_300 = Fin (6032057205060441 / 2 ^ 1049)"
proof -
  have "round_double (1 / 10 ^ 300) = Fin (of_int 6032057205060441 * pow2 (- 997 - 52))"
    by (rule round_double_eqI) (simp_all add: pow2_def)
  then show ?thesis by (simp add: d_1e_300_def pow2_def)
qed

section \<open>Time matching\<close>

lemma make_full_fields_T:
  "make_full_fields [''T''] False = [''G'', ''T'', ''alphat'', ''epsilon'', ''k'', ''nut'']"
  by code_simp

lemma assemble_ex: "assemble [''T''] (ex_tdir t) = Inr (Some ex_matrix)"
  by (simp add: assemble_def field_iter.simps load_batch_def batch_file_def make_fields_def
      make_full_fields_T num_fields_def batch_indicies_def field_index_def ebind_def
      reshape_rows_def chop.simps take_cols_def first_col_def hstack_def nrows_def
      ex_tdir_def ex_flat_def ex_matrix_def)

lemma timecheck_Fin:
  "timecheck (Fin x) (Fin t)
     = dle (dabs (round_double (x - t))) (dadd d_1e_10 (dmul d_1e_10 (Fin \<bar>t\<bar>)))"
  by (simp add: timecheck_def isclose_def dsub_def)


lemma timecheck_near': "timecheck ex_time (Fin 1)"
  by (simp add: ex_time_def timecheck_Fin d_1e_10_val double_eval)

lemma ex_time_neq: "ex_time \<noteq> Fin 1"
  by (simp add: ex_time_def)


lemma timecheck_same: "timecheck (Fin 1) (Fin 1)"
  by (simp add: timecheck_Fin d_1e_10_val double_eval)





text \<open>
  Claim C7. When a time directory is loaded for a discovered time \<open>t\<close> that some
  requested time matches, its matrix is stored under the first requested time, in the
  order of the requested list, that matches \<open>t\<close>: no earlier entry of the list matches,
  whatever the later entries are.
\<close>

theorem load_time_first_match:
  assumes "load_time fields timelist td st = Inr st'"
    and "tdir_time td = Some t"
    and "list_ex (\<lambda>x. timecheck x t) timelist"
  shows "\<exists>i m. i < length timelist \<and> timecheck (timelist ! i) t
           \<and> (\<forall>j<i. \<not> timecheck (timelist ! j) t)
           \<and> assemble fields td = Inr m
           \<and> st' = (insert (timelist ! i) (fst st), AList.update (timelist ! i) m (snd st))"
proof -
  from assms obtain m nice_t where m: "assemble fields td = Inr m"
    and f: "find (\<lambda>x. timecheck x t) timelist = Some nice_t"
    and s: "st' = (insert nice_t (fst st), AList.update nice_t m (snd st))"
    by (auto simp: load_time_def ebind_def split: sum.splits option.splits if_splits)
  from f obtain i where "i < length timelist" "timecheck (timelist ! i) t"
    "nice_t = timelist ! i" "\<forall>j<i. \<not> timecheck (timelist ! j) t"
    unfolding find_Some_iff by blast
  with m s show ?thesis by blast
qed

text \<open>
  With \<open>ex_time\<close> requested before \<open>1\<close>, the directory for time \<open>1\<close> is stored under
  \<open>ex_time\<close>, the first match, although the second requested time is the discovered time
  itself.
\<close>

theorem load_time_first_match_witness:
  "load_time [''T''] [ex_time, Fin 1] (ex_tdir (Fin 1)) ({}, [])
     = Inr ({ex_time}, [(ex_time, Some ex_matrix)])
   \<and> timecheck (Fin 1) (Fin 1) \<and> ex_time \<noteq> Fin 1
   \<and> (\<exists>i m. i < length [ex_time, Fin 1]
         \<and> timecheck ([ex_time, Fin 1] ! i) (Fin 1)
         \<and> assemble [''T''] (ex_tdir (Fin 1)) = Inr m
         \<and> ({ex_time}, [(ex_time, Some ex_matrix)])
             = (insert ([ex_time, Fin 1] ! i) {}, AList.update ([ex_time, Fin 1] ! i) m []))"
proof -
  have t: "tdir_time (ex_tdir (Fin 1)) = Some (Fin 1)"
    by (simp add: ex_tdir_def)
  have l: "load_time [''T''] [ex_time, Fin 1] (ex_tdir (Fin 1)) ({}, [])
     = Inr ({ex_time}, [(ex_time, Some ex_matrix)])"
    using timecheck_near' by (simp add: load_time_def t assemble_ex ebind_def)
  have e: "list_ex (\<lambda>x. timecheck x (Fin 1)) [ex_time, Fin 1]"
    using timecheck_near' by simp
  from load_time_first_match [OF l t e] l timecheck_same ex_time_neq show ?thesis
    by (auto simp del: AList.update.simps)
qed

section \<open>What load returns\<close>












section \<open>Loading with no requested time\<close>











section \<open>The shape of an assembled matrix\<close>

lemma chop_shape:
  "0 < c \<Longrightarrow> length xs = n * c
     \<Longrightarrow> length (chop c xs) = n \<and> (\<forall>r \<in> set (chop c xs). length r = c)"
proof (induction n arbitrary: xs)
  case 0
  then show ?case by (simp add: chop.simps)
next
  case (Suc n)
  then have ne: "xs \<noteq> []" and d: "length (drop c xs) = n * c" and t: "length (take c xs) = c"
    by auto
  from Suc.IH [OF Suc.prems(1) d] Suc.prems(1) ne t show ?case
    by (subst chop.simps, subst (2) chop.simps) auto
qed

lemma reshape_rows_shape:
  assumes "reshape_rows flat c = Inr vals"
  shows "ncols vals = c \<and> 0 < c \<and> wf_matrix vals \<and> length flat = nrows vals * c"
proof -
  from assms have c: "0 < c" and m: "length flat mod c = 0"
    and v: "vals = Matrix c (chop c flat)"
    by (auto simp: reshape_rows_def split: if_splits)
  from m have "length flat = (length flat div c) * c" by auto
  from chop_shape [OF c this] v c this show ?thesis
    by (simp add: wf_matrix_def nrows_def list_all_iff)
qed

lemma map_err_length: "map_err g xs = Inr ys \<Longrightarrow> length ys = length xs"
  by (induction xs arbitrary: ys) (auto split: sum.splits)

lemma take_cols_shape:
  assumes "take_cols vals idx = Inr svals"
  shows "ncols svals = length idx \<and> nrows svals = nrows vals \<and> wf_matrix svals"
  using assms
  by (auto simp: take_cols_def wf_matrix_def nrows_def list_all_iff split: if_splits)

lemma first_col_shape:
  assumes "first_col vals = Inr pos"
  shows "ncols pos = 1 \<and> nrows pos = nrows vals \<and> wf_matrix pos
         \<and> map (\<lambda>r. r ! 0) (rows pos) = map (\<lambda>r. r ! 0) (rows vals)"
  using assms
  by (auto simp: first_col_def wf_matrix_def nrows_def list_all_iff split: if_splits)

lemma map2_append_nth0:
  "length xs = length ys \<Longrightarrow> \<forall>r \<in> set xs. r \<noteq> []
     \<Longrightarrow> map (\<lambda>r. r ! 0) (map2 (@) xs ys) = map (\<lambda>r. r ! 0) xs"
proof (induction xs arbitrary: ys)
  case Nil
  then show ?case by simp
next
  case (Cons x xs)
  then obtain y ys' where ys: "ys = y # ys'" by (cases ys) auto
  with Cons show ?case by (cases x) auto
qed

lemma map2_append_lengths:
  "length xs = length ys \<Longrightarrow> \<forall>r \<in> set xs. length r = a \<Longrightarrow> \<forall>r \<in> set ys. length r = b
     \<Longrightarrow> \<forall>r \<in> set (map2 (@) xs ys). length r = a + b"
proof (induction xs arbitrary: ys)
  case Nil
  then show ?case by simp
next
  case (Cons x xs)
  then obtain y ys' where ys: "ys = y # ys'" by (cases ys) auto
  with Cons show ?case by auto
qed

lemma hstack_shape:
  assumes "hstack a b = Inr m" "wf_matrix a" "wf_matrix b" "0 < ncols a"
  shows "ncols m = ncols a + ncols b \<and> nrows m = nrows a \<and> nrows b = nrows a \<and> wf_matrix m
         \<and> map (\<lambda>r. r ! 0) (rows m) = map (\<lambda>r. r ! 0) (rows a)"
proof -
  from assms(1) have n: "nrows a = nrows b"
    and m: "m = Matrix (ncols a + ncols b) (map2 (@) (rows a) (rows b))"
    by (auto simp: hstack_def split: if_splits)
  from n have l: "length (rows a) = length (rows b)" by (simp add: nrows_def)
  from assms(2,4) have ne: "\<forall>r \<in> set (rows a). r \<noteq> []"
    by (auto simp: wf_matrix_def list_all_iff)
  from assms(2,3) have "\<forall>r \<in> set (rows a). length r = ncols a"
    "\<forall>r \<in> set (rows b). length r = ncols b"
    by (simp_all add: wf_matrix_def list_all_iff)
  from map2_append_lengths [OF l this] map2_append_nth0 [OF l ne] m n l show ?thesis
    by (simp add: wf_matrix_def list_all_iff nrows_def)
qed

lemma batch_indicies_length: "batch_indicies f = Inr idx \<Longrightarrow> length idx = length f"
  unfolding batch_indicies_def by (rule map_err_length)

text \<open>A batch after the first: the columns of the batch are put to the right.\<close>

lemma load_batch_Some_shape:
  assumes "load_batch td (Some c) f = Inr r" "wf_matrix c" "0 < ncols c"
  shows "\<exists>m flat. r = Some m \<and> ncols m = ncols c + length f \<and> nrows m = nrows c \<and> wf_matrix m
           \<and> map (\<lambda>r. r ! 0) (rows m) = map (\<lambda>r. r ! 0) (rows c)
           \<and> tdir_files td (batch_file f) = Some flat
           \<and> length flat = nrows c * (num_fields f False + 1)"
proof -
  from assms(1) obtain flat vals idx svals m where
    fl: "tdir_files td (batch_file f) = Some flat"
    and v: "reshape_rows flat (num_fields f False + 1) = Inr vals"
    and i: "batch_indicies f = Inr idx"
    and s: "take_cols vals idx = Inr svals"
    and h: "hstack c svals = Inr m" and r: "r = Some m"
    by (auto simp: load_batch_def ebind_def split: option.splits sum.splits)
  note vs = reshape_rows_shape [OF v]
  note ss = take_cols_shape [OF s]
  from ss have ws: "wf_matrix svals" by simp
  note hs = hstack_shape [OF h assms(2) ws assms(3)]
  from hs ss vs batch_indicies_length [OF i] fl r show ?thesis by simp
qed

text \<open>The first batch: the position column of its file, then the columns of the batch.\<close>

lemma load_batch_None_shape:
  assumes "load_batch td None f = Inr r"
  shows "\<exists>m flat vals. r = Some m \<and> ncols m = 1 + length f \<and> wf_matrix m
           \<and> tdir_files td (batch_file f) = Some flat
           \<and> reshape_rows flat (num_fields f False + 1) = Inr vals
           \<and> map (\<lambda>r. r ! 0) (rows m) = map (\<lambda>r. r ! 0) (rows vals)
           \<and> length flat = nrows m * (num_fields f False + 1)"
proof -
  from assms obtain flat vals idx svals pos m where
    fl: "tdir_files td (batch_file f) = Some flat"
    and v: "reshape_rows flat (num_fields f False + 1) = Inr vals"
    and i: "batch_indicies f = Inr idx"
    and s: "take_cols vals idx = Inr svals"
    and p: "first_col vals = Inr pos"
    and h: "hstack pos svals = Inr m" and r: "r = Some m"
    by (auto simp: load_batch_def ebind_def split: option.splits sum.splits)
  note vs = reshape_rows_shape [OF v]
  note ss = take_cols_shape [OF s]
  note ps = first_col_shape [OF p]
  from ss have ws: "wf_matrix svals" by simp
  from ps have wp: "wf_matrix pos" and np: "0 < ncols pos" by simp_all
  note hs = hstack_shape [OF h wp ws np]
  from hs ss vs ps batch_indicies_length [OF i] fl v r show ?thesis by simp
qed

lemma load_batches_shape:
  assumes "load_batches td (Some c) fs = Inr r" "wf_matrix c" "0 < ncols c"
  shows "\<exists>m. r = Some m \<and> ncols m = ncols c + length (concat fs) \<and> nrows m = nrows c
           \<and> wf_matrix m \<and> map (\<lambda>r. r ! 0) (rows m) = map (\<lambda>r. r ! 0) (rows c)
           \<and> (\<forall>f \<in> set fs. \<exists>flat. tdir_files td (batch_file f) = Some flat
                 \<and> length flat = nrows c * (num_fields f False + 1))"
  using assms
proof (induction fs arbitrary: c)
  case Nil
  then show ?case by auto
next
  case (Cons f fs)
  from Cons.prems(1) obtain r1 where b: "load_batch td (Some c) f = Inr r1"
    and bs: "load_batches td r1 fs = Inr r"
    by (auto simp: ebind_def split: sum.splits)
  from load_batch_Some_shape [OF b Cons.prems(2,3)] obtain m1 flat where
    m1: "r1 = Some m1" "ncols m1 = ncols c + length f" "nrows m1 = nrows c" "wf_matrix m1"
      "map (\<lambda>r. r ! 0) (rows m1) = map (\<lambda>r. r ! 0) (rows c)"
      "tdir_files td (batch_file f) = Some flat"
      "length flat = nrows c * (num_fields f False + 1)"
    by blast
  from m1(2) Cons.prems(3) have pos: "0 < ncols m1" by simp
  from Cons.IH [OF bs [unfolded m1(1)] m1(4) pos] obtain m where
    m: "r = Some m" "ncols m = ncols m1 + length (concat fs)" "nrows m = nrows m1"
      "wf_matrix m" "map (\<lambda>r. r ! 0) (rows m) = map (\<lambda>r. r ! 0) (rows m1)"
      "\<forall>f \<in> set fs. \<exists>flat. tdir_files td (batch_file f) = Some flat
           \<and> length flat = nrows m1 * (num_fields f False + 1)"
    by blast
  from m m1 show ?case by simp
qed

text \<open>
  Claim C6. A matrix assembled for a case and a time from the batch files has one column
  more than there are requested fields, and every row has that many entries; every batch
  file holds as many rows (of one number more than the batch's canonical fields) as the
  matrix has; and column 0 of the matrix is column 0, the position, of the first batch's
  file.
\<close>

theorem assemble_shape:
  assumes "assemble fields td = Inr (Some m)"
  shows "ncols m = 1 + length fields \<and> wf_matrix m
         \<and> (\<forall>f \<in> set (field_iter fields False).
               \<exists>flat. tdir_files td (batch_file f) = Some flat
                 \<and> length flat = nrows m * (num_fields f False + 1))
         \<and> (\<exists>f fs flat vals. field_iter fields False = f # fs
               \<and> tdir_files td (batch_file f) = Some flat
               \<and> reshape_rows flat (num_fields f False + 1) = Inr vals
               \<and> map (\<lambda>r. r ! 0) (rows m) = map (\<lambda>r. r ! 0) (rows vals))"
proof (cases "field_iter fields False")
  case Nil
  with assms show ?thesis by (simp add: assemble_def)
next
  case (Cons f fs)
  with assms obtain r1 where b: "load_batch td None f = Inr r1"
    and bs: "load_batches td r1 fs = Inr (Some m)"
    by (auto simp: assemble_def ebind_def split: sum.splits)
  from load_batch_None_shape [OF b] obtain m1 flat vals where
    m1: "r1 = Some m1" "ncols m1 = 1 + length f" "wf_matrix m1"
      "tdir_files td (batch_file f) = Some flat"
      "reshape_rows flat (num_fields f False + 1) = Inr vals"
      "map (\<lambda>r. r ! 0) (rows m1) = map (\<lambda>r. r ! 0) (rows vals)"
      "length flat = nrows m1 * (num_fields f False + 1)"
    by blast
  from m1(2) have pos: "0 < ncols m1" by simp
  from load_batches_shape [OF bs [unfolded m1(1)] m1(3) pos]
  have m: "ncols m = ncols m1 + length (concat fs)" "nrows m = nrows m1"
      "wf_matrix m" "map (\<lambda>r. r ! 0) (rows m) = map (\<lambda>r. r ! 0) (rows m1)"
      "\<forall>f \<in> set fs. \<exists>flat. tdir_files td (batch_file f) = Some flat
           \<and> length flat = nrows m1 * (num_fields f False + 1)"
    by auto
  have "length fields = length f + length (concat fs)"
    using field_iter_concat [of fields False] Cons by (metis concat.simps(2) length_append)
  with m m1 Cons show ?thesis by auto
qed

text \<open>
  The example directory: one batch, one requested field, two rows; the file holds
  \<open>2 * 7\<close> numbers and the positions \<open>0\<close> and \<open>1\<close> are column 0 of the matrix.
\<close>

theorem assemble_shape_witness:
  "assemble [''T''] (ex_tdir ex_time) = Inr (Some ex_matrix)
   \<and> ncols ex_matrix = 1 + length [''T''] \<and> wf_matrix ex_matrix
   \<and> [''T''] \<in> set (field_iter [''T''] False)
   \<and> tdir_files (ex_tdir ex_time) (batch_file [''T'']) = Some ex_flat
   \<and> length ex_flat = nrows ex_matrix * (num_fields [''T''] False + 1)
   \<and> map (\<lambda>r. r ! 0) (rows ex_matrix) = [Fin 0, Fin 1]"
proof -
  note s = assemble_shape [OF assemble_ex [of ex_time]]
  have i: "field_iter [''T''] False = [[''T'']]"
    by (simp add: field_iter.simps)
  have f: "tdir_files (ex_tdir ex_time) (batch_file [''T'']) = Some ex_flat"
    by (simp add: ex_tdir_def batch_file_def make_fields_def make_full_fields_T)
  from s i f have "length ex_flat = nrows ex_matrix * (num_fields [''T''] False + 1)"
    by simp
  moreover have "map (\<lambda>r. r ! 0) (rows ex_matrix) = [Fin 0, Fin 1]"
    by (simp add: ex_matrix_def)
  ultimately show ?thesis
    using s i f assemble_ex [of ex_time] by simp
qed

section \<open>The scenario of the specification\<close>

text \<open>Adding \<^verbatim>\<open>1e-300\<close> to a number of ordinary size changes nothing.\<close>

lemma round_absorb:
  assumes "pow2 k \<le> x" "x + e < pow2 (k + 1)" "- 1022 \<le> k" "x / pow2 (k - 52) = of_int m"
    and "0 \<le> e" "e / pow2 (k - 52) < 1 / 2" "x < pow2 1024"
  shows "round_double (x + e) = Fin x"
proof -
  have xpos: "0 < x" using assms(1) pow2_pos [of k] by linarith
  have u: "0 < pow2 (k - 52)" by (rule pow2_pos)
  have mx: "of_int m * pow2 (k - 52) = x"
    using assms(4) u by (simp add: field_simps)
  have "(x + e) / pow2 (k - 52) - of_int m = e / pow2 (k - 52)"
    using assms(4) by (simp add: add_divide_distrib)
  moreover have "0 \<le> e / pow2 (k - 52)" using assms(5) u by simp
  ultimately have d: "\<bar>(x + e) / pow2 (k - 52) - of_int m\<bar> < 1 / 2"
    using assms(6) by simp
  have "round_double (x + e) = Fin (of_int m * pow2 (k - 52))"
  proof (rule round_double_eqI)
    show "pow2 k \<le> \<bar>x + e\<bar>" using assms(1,5) by linarith
    show "\<bar>x + e\<bar> < pow2 (k + 1)" using assms(2,5) xpos by linarith
    show "- 1022 \<le> k" by (rule assms(3))
    show "\<bar>(x + e) / pow2 (k - 52) - of_int m\<bar> < 1 / 2" by (rule d)
    show "\<bar>of_int m * pow2 (k - 52)\<bar> < pow2 1024" using mx assms(7) xpos by simp
  qed
  with mx show ?thesis by simp
qed

lemma add_eps_300: "dadd d_1e_300 (Fin 300) = Fin 300"
  using round_absorb [of 8 300 "6032057205060441 / 2 ^ 1049" "300 * 2 ^ 44"]
  by (simp add: d_1e_300_val pow2_def add.commute)

lemma add_eps_310: "dadd d_1e_300 (Fin 310) = Fin 310"
  using round_absorb [of 8 310 "6032057205060441 / 2 ^ 1049" "310 * 2 ^ 44"]
  by (simp add: d_1e_300_val pow2_def add.commute)

lemma add_eps_100000: "dadd d_1e_300 (Fin 100000) = Fin 100000"
  using round_absorb [of 16 100000 "6032057205060441 / 2 ^ 1049" "100000 * 2 ^ 36"]
  by (simp add: d_1e_300_val pow2_def add.commute)

lemma add_eps_101000: "dadd d_1e_300 (Fin 101000) = Fin 101000"
  using round_absorb [of 16 101000 "6032057205060441 / 2 ^ 1049" "101000 * 2 ^ 36"]
  by (simp add: d_1e_300_val pow2_def add.commute)

lemma rel_diff_scenario:
  "rel_diff ex_base ex_cand = Inr (Matrix 2 [[d_0_01, Fin 0], [Fin 0, d_0_01]])"
  by (simp add: rel_diff_def broadcast2_def bdim_def stretch_def nrows_def drop_first_col_def
      map_matrix_def dsub_def ebind_def ex_base_def ex_cand_def d_0_01_def
      add_eps_300 add_eps_310 add_eps_100000 add_eps_101000 double_eval)

lemmas sqrt_eval = sqrt_rne_def isqrt.simps

lemma rel_err_mean_scenario:
  "rel_err_mean (Matrix 2 [[d_0_01, Fin 0], [Fin 0, d_0_01]]) = Fin (6369051672525773 / 2 ^ 54)"
  by (simp add: rel_err_mean_def norm_2_def double_of_nat_def nrows_def d_0_01_def
      double_eval sqrt_eval)

lemma norms_scenario:
  "norm_inf [d_0_01, Fin 0] = Inr d_0_01"
  "norm_inf [Fin 0, d_0_01] = Inr d_0_01"
  "norm_inf [d_0_01, d_0_01] = Inr d_0_01"
  "dmul d_0_01 (Fin 100) = Fin 1"
  by (simp_all add: norm_inf_def dmax_def d_0_01_def double_eval)

lemma field_err_scenario:
  "field_err ''T'' [''T'', ''p''] (Matrix 2 [[d_0_01, Fin 0], [Fin 0, d_0_01]]) = Inr (Some (Fin 1))"
  "field_err ''p'' [''T'', ''p''] (Matrix 2 [[d_0_01, Fin 0], [Fin 0, d_0_01]]) = Inr (Some (Fin 1))"
  by (simp_all add: field_err_def column_def ebind_def norm_inf_def dmax_def d_0_01_def
      double_eval)

lemma where_cols_scenario:
  "where_cols d_0_01 (Matrix 2 [[d_0_01, Fin 0], [Fin 0, d_0_01]]) = [0, 1]"
  by (simp add: where_cols_def deq_def d_0_01_def)

lemma compare_scenario:
  "compare [''T'', ''p''] ''SandiaD_LTS_seulex'' (Fin 5000) (Some ex_base) (Some ex_cand)
     = Inr (Report ''SandiaD_LTS_seulex'' (Fin 5000) (Some (Fin 1)) (Some (Fin 1)) (Fin 1)
             (Fin (6369051672525773 / 2 ^ 54)) ''T'')"
  by (simp add: compare_def rel_diff_scenario ebind_def norms_scenario field_err_scenario
      where_cols_scenario rel_err_mean_scenario nth_err_def)

lemma validate_ex_results:
  "validate [Fin 5000] ex_results [''T'', ''p''] ''SandiaD_LTS''
     = Inr [Report ''SandiaD_LTS_seulex'' (Fin 5000) (Some (Fin 1)) (Some (Fin 1)) (Fin 1)
             (Fin (6369051672525773 / 2 ^ 54)) ''T'']"
  by (simp add: ex_results_def compare_scenario ebind_def)

text \<open>
  Claim C3, as the code has it. For the scenario of the specification the elementwise
  relative error is the double \<open>0.01\<close> for the temperature at the first point and for the
  pressure at the second point (\<open>1010 / 101000\<close>), and zero elsewhere; \<open>0.01 * 100\<close> is
  exactly \<open>1\<close> in double arithmetic. So the reported temperature error, pressure error and
  inf-norm error are all 1%, attained first by \<^verbatim>\<open>T\<close>.
\<close>

theorem validate_scenario:
  "rel_diff ex_base ex_cand = Inr (Matrix 2 [[d_0_01, Fin 0], [Fin 0, d_0_01]])
   \<and> dmul d_0_01 (Fin 100) = Fin 1
   \<and> validate [Fin 5000] ex_results [''T'', ''p''] ''SandiaD_LTS''
       = Inr [Report ''SandiaD_LTS_seulex'' (Fin 5000) (Some (Fin 1)) (Some (Fin 1)) (Fin 1)
               (Fin (6369051672525773 / 2 ^ 54)) ''T'']"
  unfolding rel_diff_scenario norms_scenario(4) validate_ex_results by simp

text \<open>The claim as stated fails: the reported pressure error is 1%, not 0%.\<close>

theorem validate_scenario_counterexample:
  "\<not> (\<exists>r. validate [Fin 5000] ex_results [''T'', ''p''] ''SandiaD_LTS'' = Inr [r]
          \<and> rep_p_err r = Some (Fin 0))"
  unfolding validate_ex_results by simp

section \<open>Missing data in the validator\<close>

lemma validate_cases_skip:
  "map_of cres time = None
     \<Longrightarrow> validate_cases fields base time comp' ((case_nm, cres) # rest)
           = validate_cases fields base time comp' rest"
  by simp

lemma validate_no_base:
  "map_of results base = None \<Longrightarrow> validate (time # times') results fields base = Inl KeyError"
  by simp

lemma validate_no_base_time:
  "map_of results base = Some bres \<Longrightarrow> map_of bres time = None
     \<Longrightarrow> validate (time # times') results fields base = Inl KeyError"
  by simp

text \<open>
  Claim C1 at its failing inputs. A candidate without data for the time is passed over
  and no error is raised. A baseline that is absent from the results, or present without
  data for a requested time, makes \<^verbatim>\<open>results[base][time]\<close> raise \<^verbatim>\<open>KeyError\<close>, which ends
  validate: nothing is skipped and the remaining work is lost.
\<close>

theorem validate_missing_data:
  "validate [Fin 5000]
       [(''SandiaD_LTS'', [(Fin 5000, Some ex_base)]),
        (''SandiaD_LTS_seulex'', [(Fin 5001, Some ex_cand)])] [''T'', ''p''] ''SandiaD_LTS''
     = Inr []
   \<and> validate [Fin 5000] [(''SandiaD_LTS_seulex'', [(Fin 5000, Some ex_cand)])]
       [''T'', ''p''] ''SandiaD_LTS''
     = Inl KeyError
   \<and> validate [Fin 5001, Fin 5000] ex_results [''T'', ''p''] ''SandiaD_LTS'' = Inl KeyError
   \<and> validate [Fin 5000, Fin 5001] ex_results [''T'', ''p''] ''SandiaD_LTS'' = Inl KeyError"
  by (simp add: ex_results_def compare_scenario ebind_def)

end
